theory Spec2Isabelle
  imports Complex_Main "HOL-Library.Word"
begin

section \<open>Errors and their classification\<close>

text \<open>
  Go errors that \<open>fast/api.go\<close> can see.  \<open>DeadlineExceeded\<close> and \<open>Canceled\<close> are the
  two values of \<open>ctx.Err()\<close>; \<open>ErrOther\<close> is any other leaf error, identified by its
  message; \<open>ErrWrap\<close> is an error with an \<open>Unwrap\<close> method (\<open>*url.Error\<close> is what
  \<open>http.Client.Do\<close> returns).  \<open>errors_Is\<close> walks the chain as \<open>errors.Is\<close> does.
\<close>

datatype error = DeadlineExceeded | Canceled | ErrOther string | ErrWrap string error

fun errors_Is :: "error \<Rightarrow> error \<Rightarrow> bool" where
  "errors_Is (ErrWrap m e) target = (ErrWrap m e = target \<or> errors_Is e target)"
| "errors_Is e target = (e = target)"

text \<open>\<open>isUnexpectedError\<close>, lines 70-72: \<open>err != nil && !errors.Is(err, context.DeadlineExceeded)\<close>.\<close>

fun isUnexpectedError :: "error option \<Rightarrow> bool" where
  "isUnexpectedError None = False"
| "isUnexpectedError (Some e) = (\<not> errors_Is e DeadlineExceeded)"

text \<open>Run-time panics of the Go program; a panic in any goroutine ends the process.\<close>

datatype panic = IndexOutOfRange | DivideByZero | ReleasedMoreThanHeld

section \<open>The fetcher: \<open>doMeasure\<close>\<close>

text \<open>
  What the network does to one call of \<open>doMeasure\<close> (lines 74-86):
  \<open>http.NewRequestWithContext\<close> fails, or \<open>http.DefaultClient.Do\<close> fails, or a response
  with some status code arrives and \<open>io.Copy(io.Discard, resp.Body)\<close> returns the number
  of bytes it copied and the error that stopped it, if any.
\<close>

datatype fetch_outcome =
    RequestFailed error
  | TransportFailed error
  | Responded nat "64 word" "error option"

fun doMeasure :: "fetch_outcome \<Rightarrow> 64 word \<times> error option" where
  "doMeasure (RequestFailed e) = (0, Some e)"
| "doMeasure (TransportFailed e) = (0, Some e)"
| "doMeasure (Responded status n cerr) = (n, cerr)"

section \<open>The URL source: \<open>getPage\<close>, \<open>getToken\<close>, \<open>findURLs\<close>\<close>

text \<open>
  The web as the URL source sees it: for each URL, either \<open>http.Get\<close> fails, or
  \<open>io.ReadAll\<close> returns the bytes read and the error that stopped it, if any.
\<close>

datatype page_outcome = GetFailed error | Body string "error option"

type_synonym web = "string \<Rightarrow> page_outcome"

fun getPage :: "web \<Rightarrow> string \<Rightarrow> string \<times> error option" where
  "getPage w url = (case w url of GetFailed e \<Rightarrow> ([], Some e) | Body b e \<Rightarrow> (b, e))"

definition baseURL :: string where
  "baseURL = ''https://fast.com''"

subsection \<open>The three regular expressions\<close>

text \<open>
  Go's \<open>regexp\<close> finds the leftmost match and, there, the one a backtracking matcher
  would find first.  A dot matches every character but the newline.  The three patterns
  are matched by hand below; all their literal characters are ASCII, so matching bytes
  is matching UTF-8.
\<close>

definition newline :: char where
  "newline = CHR 0x0A"

definition dquote :: char where
  "dquote = CHR 0x22"

definition line_rest :: "string \<Rightarrow> string" where
  "line_rest s = takeWhile (\<lambda>c. c \<noteq> newline) s"

text \<open>The longest prefix of \<open>s\<close> that ends in \<open>.js\<close>: what a greedy \<open>.*\<close> followed by
  \<open>\.js\<close> matches from the start of \<open>s\<close>.\<close>

fun upto_last_js :: "string \<Rightarrow> string option" where
  "upto_last_js [] = None"
| "upto_last_js (c # cs) =
     (case upto_last_js cs of
        Some r \<Rightarrow> Some (c # r)
      | None \<Rightarrow> if take 3 (c # cs) = ''.js'' then Some ''.js'' else None)"

text \<open>\<open>jsRE = app-.*\.js\<close>, anchored at the start of \<open>s\<close>.\<close>

definition match_js_at :: "string \<Rightarrow> string option" where
  "match_js_at s =
     (if take 4 s = ''app-''
      then map_option (\<lambda>r. ''app-'' @ r) (upto_last_js (line_rest (drop 4 s)))
      else None)"

text \<open>\<open>jsRE.FindAllString(s, 1)\<close>: the leftmost match alone, or no match.\<close>

fun find_js :: "string \<Rightarrow> string list" where
  "find_js [] = []"
| "find_js (c # cs) =
     (case match_js_at (c # cs) of Some m \<Rightarrow> [m] | None \<Rightarrow> find_js cs)"

definition is_alpha :: "char \<Rightarrow> bool" where
  "is_alpha c = (let n = (of_char c :: nat) in (65 \<le> n \<and> n \<le> 90) \<or> (97 \<le> n \<and> n \<le> 122))"

text \<open>\<open>tokenRE = token:"[[:alpha:]]*"\<close>, anchored at the start of \<open>s\<close>.\<close>

definition match_token_at :: "string \<Rightarrow> string option" where
  "match_token_at s =
     (if take 7 s = ''token:'' @ [dquote]
      then (let a = takeWhile is_alpha (drop 7 s) in
            if take 1 (drop (7 + length a) s) = [dquote]
            then Some (''token:'' @ [dquote] @ a @ [dquote])
            else None)
      else None)"

text \<open>\<open>tokenRE.FindAllString(s, 1)\<close>.\<close>

fun find_token :: "string \<Rightarrow> string list" where
  "find_token [] = []"
| "find_token (c # cs) =
     (case match_token_at (c # cs) of Some m \<Rightarrow> [m] | None \<Rightarrow> find_token cs)"

text \<open>
  \<open>urlRE = (?U)"url":"(.*)"\<close>, anchored at the start of \<open>s\<close>: the group is the
  shortest run of characters of the line that a double quote follows.  The result is the
  group; the match is 8 characters longer (\<open>"url":"\<close> and the closing quote).
\<close>

definition match_url_at :: "string \<Rightarrow> string option" where
  "match_url_at s =
     (if take 7 s = [dquote] @ ''url'' @ [dquote] @ '':'' @ [dquote]
      then (let g = takeWhile (\<lambda>c. c \<noteq> dquote \<and> c \<noteq> newline) (drop 7 s) in
            if take 1 (drop (7 + length g) s) = [dquote]
            then Some g
            else None)
      else None)"

text \<open>
  \<open>urlRE.FindAllStringSubmatch(s, -1)\<close> followed by the loop of lines 99-102, which
  keeps group 1 of every match: the matches do not overlap, the search goes on where
  the last match ended.
\<close>

function find_urls :: "string \<Rightarrow> string list" where
  "find_urls [] = []"
| "find_urls (c # cs) =
     (case match_url_at (c # cs) of
        Some g \<Rightarrow> g # find_urls (drop (8 + length g) (c # cs))
      | None \<Rightarrow> find_urls cs)"
  by pat_completeness auto
termination
  by (relation "measure length") auto

subsection \<open>\<open>getToken\<close> and \<open>findURLs\<close>\<close>

text \<open>
  \<open>getToken\<close>, lines 107-130.  The errors of \<open>getPage\<close> are logged and dropped; the
  body read so far is used whatever happened.  \<open>scriptNames[0]\<close> is an index into a
  list that is empty when nothing matched: the run-time panic is the \<open>Inl\<close> result.
  \<open>tokens[0][7 : len(tokens[0])-1]\<close> cuts \<open>token:"\<close> and the closing quote off.
\<close>

definition getToken :: "web \<Rightarrow> panic + string" where
  "getToken w =
     (let (fastBody, err) = getPage w baseURL;
          scriptNames = find_js fastBody
      in case scriptNames of
           [] \<Rightarrow> Inl IndexOutOfRange
         | name # _ \<Rightarrow>
             (let scriptURL = baseURL @ ''/'' @ name;
                  (scriptBody, err) = getPage w scriptURL;
                  tokens = find_token scriptBody
              in if length tokens > 0
                 then Inr (take (length (hd tokens) - 1 - 7) (drop 7 (hd tokens)))
                 else Inr ''''))"

definition apiURL :: "string \<Rightarrow> string" where
  "apiURL token =
     ''https://api.fast.com/netflix/speedtest/v2?https=true&token='' @ token @ ''&urlCount=5''"

text \<open>\<open>findURLs\<close>, lines 88-105: no error is returned, whatever happened.\<close>

definition findURLs :: "web \<Rightarrow> panic + string list" where
  "findURLs w =
     (case getToken w of
        Inl p \<Rightarrow> Inl p
      | Inr token \<Rightarrow>
          (let (jsonData, err) = getPage w (apiURL token)
           in Inr (find_urls jsonData)))"

section \<open>The coordinator: \<open>Measure\<close> as a transition system\<close>

text \<open>
  \<open>Measure\<close> (lines 31-68) runs one main goroutine and one goroutine per \<open>wg.Go\<close>.
  The model is an interleaving semantics: a state holds the shared variables, the local
  variables and the program counter of every goroutine, and \<open>step\<close> executes one
  statement of one goroutine.  An event names the statement (and, where the outside
  world decides, what it decided), so a list of events is a schedule, and \<open>exec\<close>
  runs it.  An event that its goroutine cannot execute in the state gives \<open>None\<close>.

  Program counters are named after the source lines.  Main goroutine: \<open>M39\<close>
  (\<open>context.WithTimeout\<close>), \<open>M42\<close> (\<open>start := time.Now()\<close>), \<open>M46\<close> (the \<open>select\<close>),
  \<open>M50\<close> (\<open>sem.Acquire\<close>), \<open>M53\<close> (\<open>wg.Go\<close>), \<open>M64\<close> (\<open>wg.Wait\<close>) and
  \<open>MReturned\<close> with the two results.  Worker goroutine: \<open>W55\<close> (the URL is picked),
  \<open>W56\<close> (\<open>atomic.AddInt32\<close>), \<open>W57\<close> (\<open>doMeasure\<close> is called), \<open>WFetching\<close>
  (inside \<open>doMeasure\<close>), \<open>W58\<close> (\<open>atomic.AddInt64\<close>), \<open>W59\<close> (\<open>return err\<close>, which
  runs the deferred \<open>sem.Release(1)\<close> of line 54), \<open>WGroup\<close> (back in \<open>errgroup\<close>:
  the first non-nil error is kept, then \<open>wg.Done\<close>), \<open>WDone\<close>.
\<close>

text \<open>
  The \<open>float64\<close> results of \<open>Measure\<close>: a number, or what Go's division gives when
  the divisor is \<open>0.0\<close>: an infinity for a dividend that is not zero, a NaN for \<open>0.0\<close>.
  Numbers are real numbers here: the rounding of \<open>float64\<close> is not modelled.
\<close>

datatype float64 = Num real | PosInf | NegInf | NaN

definition float_div :: "real \<Rightarrow> real \<Rightarrow> float64" where
  "float_div x y =
     (if y = 0 then (if x = 0 then NaN else if 0 < x then PosInf else NegInf)
      else Num (x / y))"

datatype mpc = M39 | M42 | M46 | M50 | M53 | M64 | MReturned float64 "error option"

datatype wpc = W55 | W56 | W57 | WFetching | W58 | W59 | WGroup | WDone

text \<open>The closure's local variables \<open>url\<close>, \<open>bytes\<close> and \<open>err\<close>.\<close>

record worker =
  wpc :: wpc
  wurl :: string
  wbytes :: "64 word"
  werr :: "error option"

text \<open>
  \<open>urls\<close>, \<open>idx\<close> (an \<open>int32\<close>), \<open>sumBytes\<close> (an \<open>int64\<close>) and \<open>start\<close> are the
  variables of \<open>Measure\<close>; \<open>sem\<close> is the semaphore's count \<open>cur\<close> of held slots;
  \<open>ctx_deadline\<close> and \<open>ctx_err\<close> are the context's deadline and its \<open>Err()\<close>
  (not \<open>None\<close> once \<open>Done()\<close> is closed); \<open>g_err\<close> is the error the \<open>errgroup\<close>
  keeps; \<open>clock\<close> is the time in nanoseconds.
\<close>

record state =
  urls :: "string list"
  idx :: "32 word"
  sumBytes :: "64 word"
  start :: nat
  sem :: int
  ctx_deadline :: nat
  ctx_err :: "error option"
  g_err :: "error option"
  clock :: nat
  pc :: mpc
  workers :: "worker list"
  panicked :: "panic option"

definition maxConcurrentRequests :: int where
  "maxConcurrentRequests = 8"

definition maxTime :: nat where
  "maxTime = 10 * 1000000000"

datatype event =
    Tick nat
  | DeadlinePasses
  | NewContext
  | StartClock
  | LoopTest
  | AcquireOk
  | AcquireFail
  | Spawn
  | WaitReturns
  | PickURL nat
  | CountUp nat
  | CallFetch nat
  | FetchReturns nat fetch_outcome
  | AddBytes nat
  | ReleaseSlot nat
  | ReportErr nat

text \<open>Go's \<open>%\<close> truncates towards zero: the result has the sign of the dividend.\<close>

definition go_rem :: "int \<Rightarrow> int \<Rightarrow> int" where
  "go_rem a b = (if 0 \<le> a then a mod \<bar>b\<bar> else - ((- a) mod \<bar>b\<bar>))"

text \<open>
  Line 55, \<open>urls[int(idx)%len(urls)]\<close>: the remainder by a zero length and an index
  outside the slice are run-time panics.
\<close>

definition pick_url :: "string list \<Rightarrow> 32 word \<Rightarrow> panic + string" where
  "pick_url us i =
     (if length us = 0 then Inl DivideByZero
      else (let k = go_rem (sint i) (int (length us)) in
            if k < 0 \<or> int (length us) \<le> k then Inl IndexOutOfRange
            else Inr (us ! nat k)))"

text \<open>
  Line 67, \<open>float64(sumBytes) / time.Since(start).Seconds()\<close>, for \<open>sumBytes = b\<close>,
  \<open>start\<close> read at \<open>t0\<close> and the clock at \<open>t1\<close>, in nanoseconds.  The divisor is
  \<open>0.0\<close> when the clock reads the same both times.
\<close>

definition throughput :: "64 word \<Rightarrow> nat \<Rightarrow> nat \<Rightarrow> float64" where
  "throughput b t0 t1 = float_div (real_of_int (sint b)) (real (t1 - t0) / 1000000000)"

definition at_pc :: "state \<Rightarrow> nat \<Rightarrow> wpc \<Rightarrow> bool" where
  "at_pc s i p = (i < length (workers s) \<and> wpc (workers s ! i) = p)"

definition upd_worker :: "nat \<Rightarrow> (worker \<Rightarrow> worker) \<Rightarrow> state \<Rightarrow> state" where
  "upd_worker i f s = s\<lparr>workers := (workers s)[i := f (workers s ! i)]\<rparr>"

definition new_worker :: worker where
  "new_worker = \<lparr>wpc = W55, wurl = [], wbytes = 0, werr = None\<rparr>"

text \<open>
  Line 50 after \<open>sem.Acquire\<close> has returned \<open>err\<close>: an unexpected error returns from
  \<open>Measure\<close> (and the deferred \<open>cancel()\<close> closes the context if it is still open);
  every other \<open>err\<close>, \<open>nil\<close> or not, goes on to \<open>wg.Go\<close>.
\<close>

definition cancel :: "state \<Rightarrow> state" where
  "cancel s = (case ctx_err s of None \<Rightarrow> s\<lparr>ctx_err := Some Canceled\<rparr> | Some e \<Rightarrow> s)"

definition after_acquire :: "error option \<Rightarrow> state \<Rightarrow> state" where
  "after_acquire err s =
     (if isUnexpectedError err then cancel (s\<lparr>pc := MReturned (Num 0) err\<rparr>)
      else s\<lparr>pc := M53\<rparr>)"

text \<open>Lines 64-67 once \<open>wg.Wait\<close> has returned the group's error.\<close>

definition after_wait :: "state \<Rightarrow> state" where
  "after_wait s =
     (if isUnexpectedError (g_err s) then cancel (s\<lparr>pc := MReturned (Num 0) (g_err s)\<rparr>)
      else cancel (s\<lparr>pc := MReturned (throughput (sumBytes s) (start s) (clock s)) None\<rparr>))"

text \<open>
  One statement of one goroutine.
  \<^item> \<open>Tick d\<close>: \<open>d\<close> nanoseconds pass.  \<open>DeadlinePasses\<close>: the context's timer closes
    \<open>Done()\<close>, not before the deadline.
  \<^item> \<open>AcquireOk\<close>: \<open>sem.Acquire\<close> takes a free slot and returns \<open>nil\<close>.  \<open>AcquireFail\<close>:
    the context is done and \<open>sem.Acquire\<close> returns \<open>ctx.Err()\<close>, the semaphore unchanged.
    When a slot is free and the context is done, which of the two happens depends on the
    version of the library and on timing; the model allows both.
  \<^item> \<open>Spawn\<close>: \<open>wg.Go\<close> starts a goroutine, and the loop goes round.
  \<^item> \<open>WaitReturns\<close>: \<open>wg.Wait\<close> returns when every goroutine of the group is done.
  \<^item> \<open>ReleaseSlot\<close>: \<open>sem.Release(1)\<close> panics when the count falls below zero.
\<close>

fun step1 :: "event \<Rightarrow> state \<Rightarrow> state option" where
  "step1 (Tick d) s = Some (s\<lparr>clock := clock s + d\<rparr>)"
| "step1 DeadlinePasses s =
     (if pc s \<noteq> M39 \<and> ctx_err s = None \<and> ctx_deadline s \<le> clock s
      then Some (s\<lparr>ctx_err := Some DeadlineExceeded\<rparr>) else None)"
| "step1 NewContext s =
     (if pc s = M39 then Some (s\<lparr>ctx_deadline := clock s + maxTime, pc := M42\<rparr>) else None)"
| "step1 StartClock s =
     (if pc s = M42 then Some (s\<lparr>start := clock s, pc := M46\<rparr>) else None)"
| "step1 LoopTest s =
     (if pc s = M46
      then (if ctx_err s \<noteq> None then Some (s\<lparr>pc := M64\<rparr>) else Some (s\<lparr>pc := M50\<rparr>))
      else None)"
| "step1 AcquireOk s =
     (if pc s = M50 \<and> sem s < maxConcurrentRequests
      then Some (after_acquire None (s\<lparr>sem := sem s + 1\<rparr>)) else None)"
| "step1 AcquireFail s =
     (if pc s = M50 \<and> ctx_err s \<noteq> None
      then Some (after_acquire (ctx_err s) s) else None)"
| "step1 Spawn s =
     (if pc s = M53 then Some (s\<lparr>workers := workers s @ [new_worker], pc := M46\<rparr>) else None)"
| "step1 WaitReturns s =
     (if pc s = M64 \<and> list_all (\<lambda>w. wpc w = WDone) (workers s)
      then Some (after_wait s) else None)"
| "step1 (PickURL i) s =
     (if at_pc s i W55
      then (case pick_url (urls s) (idx s) of
              Inl p \<Rightarrow> Some (s\<lparr>panicked := Some p\<rparr>)
            | Inr u \<Rightarrow> Some (upd_worker i (\<lambda>w. w\<lparr>wurl := u, wpc := W56\<rparr>) s))
      else None)"
| "step1 (CountUp i) s =
     (if at_pc s i W56
      then Some (upd_worker i (\<lambda>w. w\<lparr>wpc := W57\<rparr>) (s\<lparr>idx := idx s + 1\<rparr>))
      else None)"
| "step1 (CallFetch i) s =
     (if at_pc s i W57 then Some (upd_worker i (\<lambda>w. w\<lparr>wpc := WFetching\<rparr>) s) else None)"
| "step1 (FetchReturns i out) s =
     (if at_pc s i WFetching
      then Some (upd_worker i
                  (\<lambda>w. w\<lparr>wbytes := fst (doMeasure out), werr := snd (doMeasure out), wpc := W58\<rparr>) s)
      else None)"
| "step1 (AddBytes i) s =
     (if at_pc s i W58
      then Some (upd_worker i (\<lambda>w. w\<lparr>wpc := W59\<rparr>)
                  (s\<lparr>sumBytes := sumBytes s + wbytes (workers s ! i)\<rparr>))
      else None)"
| "step1 (ReleaseSlot i) s =
     (if at_pc s i W59
      then (if sem s - 1 < 0 then Some (s\<lparr>sem := sem s - 1, panicked := Some ReleasedMoreThanHeld\<rparr>)
            else Some (upd_worker i (\<lambda>w. w\<lparr>wpc := WGroup\<rparr>) (s\<lparr>sem := sem s - 1\<rparr>)))
      else None)"
| "step1 (ReportErr i) s =
     (if at_pc s i WGroup
      then Some (upd_worker i (\<lambda>w. w\<lparr>wpc := WDone\<rparr>)
                  (case g_err s of
                     None \<Rightarrow> s\<lparr>g_err := werr (workers s ! i)\<rparr>
                   | Some e \<Rightarrow> s))
      else None)"

text \<open>
  A run of \<open>Measure\<close> is over when \<open>Measure\<close> has returned or a panic has ended the
  process: nothing is run after that.
\<close>

fun returned :: "mpc \<Rightarrow> bool" where
  "returned (MReturned r e) = True"
| "returned p = False"

definition step :: "event \<Rightarrow> state \<Rightarrow> state option" where
  "step e s = (if panicked s = None \<and> \<not> returned (pc s) then step1 e s else None)"

fun exec :: "event list \<Rightarrow> state \<Rightarrow> state option" where
  "exec [] s = Some s"
| "exec (e # es) s = (case step e s of None \<Rightarrow> None | Some s' \<Rightarrow> exec es s')"

text \<open>The state in which \<open>Measure\<close> reaches line 39 with the pool \<open>us\<close>.\<close>

definition init_state :: "string list \<Rightarrow> state" where
  "init_state us =
     \<lparr>urls = us, idx = 0, sumBytes = 0, start = 0, sem = 0, ctx_deadline = 0,
      ctx_err = None, g_err = None, clock = 0, pc = M39, workers = [], panicked = None\<rparr>"

text \<open>Line 36: the pool comes from \<open>findURLs\<close>, whose panic is the panic of \<open>Measure\<close>.\<close>

definition Measure_init :: "web \<Rightarrow> state" where
  "Measure_init w =
     (case findURLs w of
        Inl p \<Rightarrow> (init_state [])\<lparr>panicked := Some p\<rparr>
      | Inr us \<Rightarrow> init_state us)"

section \<open>Schedules used below\<close>

text \<open>The main goroutine enters the loop.\<close>

definition enter_loop :: "event list" where
  "enter_loop = [NewContext, StartClock]"

text \<open>One round of the loop with a free slot: lines 46, 50 and 53.\<close>

definition dispatch :: "event list" where
  "dispatch = [LoopTest, AcquireOk, Spawn]"

text \<open>Worker \<open>i\<close> runs lines 55 to 57 and is inside \<open>doMeasure\<close>.\<close>

definition into_fetch :: "nat \<Rightarrow> event list" where
  "into_fetch i = [PickURL i, CountUp i, CallFetch i]"

text \<open>Worker \<open>i\<close> gets \<open>out\<close> from \<open>doMeasure\<close> and runs to its end.\<close>

definition finish :: "nat \<Rightarrow> fetch_outcome \<Rightarrow> event list" where
  "finish i out = [FetchReturns i out, AddBytes i, ReleaseSlot i, ReportErr i]"

text \<open>The transfer is cut by the deadline after \<open>n\<close> bytes of a 200 response.\<close>

definition cut_off :: "64 word \<Rightarrow> fetch_outcome" where
  "cut_off n = Responded 200 n (Some (ErrWrap ''Get'' DeadlineExceeded))"

text \<open>
  Eight units are dispatched and are inside \<open>doMeasure\<close>; the main goroutine is in
  \<open>sem.Acquire\<close> with no slot free; ten seconds pass and the deadline closes the context.
\<close>

definition full_house :: "event list" where
  "full_house =
     enter_loop @
     dispatch @ dispatch @ dispatch @ dispatch @ dispatch @ dispatch @ dispatch @ dispatch @
     concat (map into_fetch [0, 1, 2, 3, 4, 5, 6, 7]) @
     [LoopTest, Tick maxTime, DeadlinePasses]"

text \<open>Then \<open>sem.Acquire\<close> returns the deadline error, and line 53 is reached all the same.\<close>

definition ninth_unit :: "event list" where
  "ninth_unit = full_house @ [AcquireFail, Spawn] @ into_fetch 8"

definition nine_finish :: "event list" where
  "nine_finish =
     ninth_unit @ [LoopTest] @ concat (map (\<lambda>i. finish i (cut_off 1000)) [0, 1, 2, 3, 4, 5, 6, 7]) @
     [FetchReturns 8 (TransportFailed (ErrWrap ''Get'' DeadlineExceeded)), AddBytes 8, ReleaseSlot 8]"

text \<open>Two units are dispatched before either has run line 55.\<close>

definition two_units :: "event list" where
  "two_units = enter_loop @ dispatch @ dispatch"

text \<open>Two units, one transfer that ends and one that the deadline cuts; the loop
  ends at the \<open>select\<close> after the deadline, and \<open>Measure\<close> returns.\<close>

definition good_run :: "event list" where
  "good_run =
     enter_loop @ dispatch @ dispatch @ into_fetch 0 @ into_fetch 1 @
     finish 0 (Responded 404 1000 None) @ [Tick maxTime, DeadlinePasses] @
     finish 1 (cut_off 500) @ [LoopTest, WaitReturns]"

text \<open>One transfer ends, one fails with a network error; then the deadline passes.\<close>

definition failed_run :: "event list" where
  "failed_run =
     enter_loop @ dispatch @ dispatch @ into_fetch 0 @ into_fetch 1 @
     finish 0 (Responded 200 1000 None) @
     finish 1 (TransportFailed (ErrOther ''connection reset'')) @
     [Tick maxTime, DeadlinePasses, LoopTest, WaitReturns]"

text \<open>The deadline cuts the first transfer, whose unit reports first; then the second
  unit reports a network error.\<close>

definition masked_error :: "event list" where
  "masked_error =
     enter_loop @ dispatch @ dispatch @ into_fetch 0 @ into_fetch 1 @
     [Tick maxTime, DeadlinePasses] @ finish 0 (cut_off 1000) @
     finish 1 (TransportFailed (ErrOther ''connection reset'')) @
     [LoopTest, WaitReturns]"

text \<open>An empty pool: one unit is dispatched and runs line 55.\<close>

definition empty_pool_run :: "event list" where
  "empty_pool_run = enter_loop @ dispatch @ [PickURL 0]"

text \<open>Nothing is dispatched before the deadline.\<close>

definition idle_run :: "event list" where
  "idle_run = enter_loop @ [Tick maxTime, DeadlinePasses, LoopTest, WaitReturns]"

text \<open>Ten seconds pass between lines 39 and 42, and the clock reads the same at lines 42
  and 67.\<close>

definition stalled_start :: "event list" where
  "stalled_start = [NewContext, Tick maxTime, StartClock, DeadlinePasses, LoopTest, WaitReturns]"

section \<open>Webs used below\<close>

text \<open>A landing page that names no script.\<close>

definition web_without_script :: web where
  "web_without_script u = Body ''<html><body>down for maintenance</body></html>'' None"

text \<open>A landing page with a script, a script without a token, and an API that answers
  the empty token with no URL.\<close>

definition web_without_token :: web where
  "web_without_token u =
     (if u = ''https://fast.com'' then Body ''<script src=/app-a1b2c3.js></script>'' None
      else if u = ''https://fast.com/app-a1b2c3.js'' then Body ''var config = {};'' None
      else Body ''forbidden'' None)"

section \<open>What a run has done\<close>

text \<open>
  Where a worker is in its code: past line 56 (\<open>idx\<close> incremented), past line 57
  (\<open>doMeasure\<close> has returned), past line 58 (its bytes added).
\<close>

fun past_count :: "wpc \<Rightarrow> bool" where
  "past_count W55 = False" | "past_count W56 = False" | "past_count p = True"

fun past_add :: "wpc \<Rightarrow> bool" where
  "past_add W59 = True" | "past_add WGroup = True" | "past_add WDone = True" | "past_add p = False"

fun past_fetch :: "wpc \<Rightarrow> bool" where
  "past_fetch W58 = True" | "past_fetch p = past_add p"

text \<open>The byte counts that the calls of \<open>doMeasure\<close> returned during a schedule, in the
  order of their return.\<close>

fun returned_counts :: "event list \<Rightarrow> 64 word list" where
  "returned_counts [] = []"
| "returned_counts (FetchReturns i out # es) = fst (doMeasure out) # returned_counts es"
| "returned_counts (e # es) = returned_counts es"

text \<open>The units in the order in which they handed their error to the \<open>errgroup\<close>, and
  the first error of a list that is not nil.\<close>

fun reported :: "event list \<Rightarrow> nat list" where
  "reported [] = []"
| "reported (ReportErr i # es) = i # reported es"
| "reported (e # es) = reported es"

fun first_error :: "error option list \<Rightarrow> error option" where
  "first_error [] = None"
| "first_error (None # es) = first_error es"
| "first_error (Some e # es) = Some e"

section \<open>Invariants\<close>

text \<open>\<open>sumBytes\<close> is the sum of the bytes of the units past line 58; the bytes of the
  units past line 57 are the counts that \<open>doMeasure\<close> returned; line 58 has run once
  for a unit past it, and never for another.\<close>

definition added_bytes :: "worker \<Rightarrow> 64 word" where
  "added_bytes w = (if past_add (wpc w) then wbytes w else 0)"

definition fetched_bytes :: "worker \<Rightarrow> 64 word" where
  "fetched_bytes w = (if past_fetch (wpc w) then wbytes w else 0)"

definition inv_sum :: "state \<Rightarrow> bool" where
  "inv_sum s = (sumBytes s = sum_list (map added_bytes (workers s)))"

definition inv_fetched :: "event list \<Rightarrow> state \<Rightarrow> bool" where
  "inv_fetched evs s =
     (sum_list (map fetched_bytes (workers s)) = sum_list (returned_counts evs))"

definition inv_added_once :: "event list \<Rightarrow> state \<Rightarrow> bool" where
  "inv_added_once evs s =
     (\<forall>i. count_list evs (AddBytes i) =
          (if i < length (workers s) \<and> past_add (wpc (workers s ! i)) then 1 else 0))"

definition inv_outcome :: "event list \<Rightarrow> state \<Rightarrow> bool" where
  "inv_outcome evs s =
     (\<forall>i out. FetchReturns i out \<in> set evs \<longrightarrow>
        i < length (workers s) \<and> past_fetch (wpc (workers s ! i)) \<and>
        wbytes (workers s ! i) = fst (doMeasure out) \<and>
        werr (workers s ! i) = snd (doMeasure out))"

text \<open>The same for \<open>idx\<close> and line 56.\<close>

definition inv_idx :: "event list \<Rightarrow> state \<Rightarrow> bool" where
  "inv_idx evs s =
     (idx s = sum_list (map (\<lambda>w. if past_count (wpc w) then 1 else 0) (workers s)) \<and>
      (\<forall>i. count_list evs (CountUp i) =
          (if i < length (workers s) \<and> past_count (wpc (workers s ! i)) then 1 else 0)))"

text \<open>The context: it is open before line 39 has run; until \<open>Measure\<close> returns it can
  only be closed by its deadline, and not before the deadline; the loop is left, and
  \<open>Measure\<close> returns, only with the context closed.\<close>

definition inv_ctx :: "state \<Rightarrow> bool" where
  "inv_ctx s =
     ((pc s = M39 \<longrightarrow> ctx_err s = None) \<and>
      (ctx_err s = None \<or> ctx_err s = Some DeadlineExceeded) \<and>
      (ctx_err s = Some DeadlineExceeded \<longrightarrow> ctx_deadline s \<le> clock s) \<and>
      (pc s = M64 \<longrightarrow> ctx_err s = Some DeadlineExceeded) \<and>
      (returned (pc s) \<longrightarrow> ctx_err s = Some DeadlineExceeded \<and> panicked s = None))"

text \<open>What \<open>Measure\<close> has returned, in terms of the state it returned in.\<close>

definition inv_ret :: "state \<Rightarrow> bool" where
  "inv_ret s =
     (\<forall>r e. pc s = MReturned r e \<longrightarrow>
         list_all (\<lambda>w. wpc w = WDone) (workers s) \<and>
         (if isUnexpectedError (g_err s) then r = Num 0 \<and> e = g_err s
          else r = throughput (sumBytes s) (start s) (clock s) \<and> e = None))"

text \<open>The \<open>errgroup\<close>: the units that have reported are the units that are done, each
  once, and the error kept is the first that was not nil.\<close>

definition inv_reported :: "event list \<Rightarrow> state \<Rightarrow> bool" where
  "inv_reported evs s =
     (\<forall>i \<in> set (reported evs). i < length (workers s) \<and> wpc (workers s ! i) = WDone)"

definition inv_reported_all :: "event list \<Rightarrow> state \<Rightarrow> bool" where
  "inv_reported_all evs s =
     ((\<forall>i < length (workers s). wpc (workers s ! i) = WDone \<longrightarrow> i \<in> set (reported evs)) \<and>
      distinct (reported evs))"

definition inv_group :: "event list \<Rightarrow> state \<Rightarrow> bool" where
  "inv_group evs s =
     (g_err s = first_error (map (\<lambda>i. werr (workers s ! i)) (reported evs)))"

text \<open>
  The semaphore: a unit holds a slot from its start to its \<open>sem.Release\<close>, but for the
  units started after a failed \<open>sem.Acquire\<close>, which are counted by the occurrences of
  \<open>AcquireFail\<close> in the schedule.  There is at most one.
\<close>

definition holding :: "worker \<Rightarrow> int" where
  "holding w = (if wpc w = WGroup \<or> wpc w = WDone then 0 else 1)"

definition inv_sem :: "event list \<Rightarrow> state \<Rightarrow> bool" where
  "inv_sem evs s =
     ((panicked s = None \<longrightarrow>
         0 \<le> sem s \<and> sem s \<le> maxConcurrentRequests \<and>
         sem s + int (count_list evs AcquireFail) =
           sum_list (map holding (workers s)) + (if pc s = M53 then 1 else 0)) \<and>
      (0 < count_list evs AcquireFail \<longrightarrow> ctx_err s \<noteq> None) \<and>
      (pc s = M50 \<longrightarrow> count_list evs AcquireFail = 0) \<and>
      count_list evs AcquireFail \<le> 1)"

definition inv_flight :: "event list \<Rightarrow> state \<Rightarrow> bool" where
  "inv_flight evs s =
     (int (length (filter (\<lambda>w. wpc w = WFetching) (workers s)))
        \<le> maxConcurrentRequests + int (count_list evs AcquireFail))"

text \<open>With an empty pool no unit gets past line 55.\<close>

definition inv_empty :: "event list \<Rightarrow> state \<Rightarrow> bool" where
  "inv_empty evs s =
     (urls s = [] \<and> list_all (\<lambda>w. wpc w = W55) (workers s) \<and> sumBytes s = 0 \<and>
      g_err s = None \<and> (panicked s = None \<or> panicked s = Some DivideByZero) \<and>
      ((\<exists>i. PickURL i \<in> set evs) \<longrightarrow> panicked s = Some DivideByZero))"

definition inv_all :: "event list \<Rightarrow> state \<Rightarrow> bool" where
  "inv_all evs s =
     (inv_sum s \<and> inv_fetched evs s \<and> inv_added_once evs s \<and> inv_ctx s \<and> inv_ret s \<and>
      inv_reported evs s \<and> inv_reported_all evs s \<and> inv_group evs s \<and>
      inv_outcome evs s \<and> inv_sem evs s)"

section \<open>Properties\<close>

lemmas run_defs =
  step_def init_state_def at_pc_def upd_worker_def new_worker_def after_acquire_def
  after_wait_def cancel_def pick_url_def go_rem_def throughput_def float_div_def
  maxConcurrentRequests_def maxTime_def enter_loop_def dispatch_def into_fetch_def
  finish_def cut_off_def full_house_def ninth_unit_def nine_finish_def two_units_def

lemmas run2_defs =
  good_run_def failed_run_def masked_error_def empty_pool_run_def idle_run_def
  stalled_start_def

lemmas step_defs =
  step_def at_pc_def upd_worker_def new_worker_def after_acquire_def after_wait_def cancel_def

lemmas web_defs =
  getToken_def findURLs_def baseURL_def apiURL_def match_js_at_def match_token_at_def
  match_url_at_def line_rest_def newline_def dquote_def is_alpha_def
  web_without_script_def web_without_token_def

subsection \<open>Runs and steps\<close>

lemma exec_append:
  "exec (xs @ ys) s = (case exec xs s of None \<Rightarrow> None | Some s' \<Rightarrow> exec ys s')"
  by (induction xs arbitrary: s) (auto split: option.splits)

lemma exec_snoc:
  "exec (xs @ [e]) s = (case exec xs s of None \<Rightarrow> None | Some s' \<Rightarrow> step e s')"
  by (simp add: exec_append split: option.splits)

lemma exec_trace_invariant:
  assumes "exec evs s0 = Some s" and "P [] s0"
    and "\<And>evs e s s'. P evs s \<Longrightarrow> step e s = Some s' \<Longrightarrow> P (evs @ [e]) s'"
  shows "P evs s"
  using assms(1)
proof (induction evs arbitrary: s rule: rev_induct)
  case Nil then show ?case using assms(2) by simp
next
  case (snoc e evs)
  then show ?case using assms(3) by (auto simp: exec_snoc split: option.splits)
qed

lemma step_running:
  "step e s = Some s' \<Longrightarrow> panicked s = None \<and> \<not> returned (pc s)"
  by (simp add: step_def split: if_splits)

lemma step_cases [consumes 1, case_names Tick DeadlinePasses NewContext StartClock LoopBreak LoopOn
    AcquireOk AcquireFail Spawn WaitReturns PickPanic PickURL CountUp CallFetch FetchReturns
    AddBytes ReleasePanic ReleaseSlot ReportErr]:
  assumes "step e s = Some s'"
  obtains
    (Tick) d where "e = Tick d" "s' = s\<lparr>clock := clock s + d\<rparr>"
  | (DeadlinePasses) "e = DeadlinePasses" "pc s \<noteq> M39" "ctx_err s = None" "ctx_deadline s \<le> clock s"
      "s' = s\<lparr>ctx_err := Some DeadlineExceeded\<rparr>"
  | (NewContext) "e = NewContext" "pc s = M39" "s' = s\<lparr>ctx_deadline := clock s + maxTime, pc := M42\<rparr>"
  | (StartClock) "e = StartClock" "pc s = M42" "s' = s\<lparr>start := clock s, pc := M46\<rparr>"
  | (LoopBreak) "e = LoopTest" "pc s = M46" "ctx_err s \<noteq> None" "s' = s\<lparr>pc := M64\<rparr>"
  | (LoopOn) "e = LoopTest" "pc s = M46" "ctx_err s = None" "s' = s\<lparr>pc := M50\<rparr>"
  | (AcquireOk) "e = AcquireOk" "pc s = M50" "sem s < maxConcurrentRequests"
      "s' = s\<lparr>sem := sem s + 1, pc := M53\<rparr>"
  | (AcquireFail) "e = AcquireFail" "pc s = M50" "ctx_err s \<noteq> None" "s' = after_acquire (ctx_err s) s"
  | (Spawn) "e = Spawn" "pc s = M53" "s' = s\<lparr>workers := workers s @ [new_worker], pc := M46\<rparr>"
  | (WaitReturns) "e = WaitReturns" "pc s = M64" "list_all (\<lambda>w. wpc w = WDone) (workers s)"
      "s' = after_wait s"
  | (PickPanic) i p where "e = PickURL i" "i < length (workers s)" "wpc (workers s ! i) = W55"
      "pick_url (urls s) (idx s) = Inl p" "s' = s\<lparr>panicked := Some p\<rparr>"
  | (PickURL) i u where "e = PickURL i" "i < length (workers s)" "wpc (workers s ! i) = W55"
      "pick_url (urls s) (idx s) = Inr u"
      "s' = s\<lparr>workers := (workers s)[i := (workers s ! i)\<lparr>wurl := u, wpc := W56\<rparr>]\<rparr>"
  | (CountUp) i where "e = CountUp i" "i < length (workers s)" "wpc (workers s ! i) = W56"
      "s' = s\<lparr>idx := idx s + 1, workers := (workers s)[i := (workers s ! i)\<lparr>wpc := W57\<rparr>]\<rparr>"
  | (CallFetch) i where "e = CallFetch i" "i < length (workers s)" "wpc (workers s ! i) = W57"
      "s' = s\<lparr>workers := (workers s)[i := (workers s ! i)\<lparr>wpc := WFetching\<rparr>]\<rparr>"
  | (FetchReturns) i out where "e = FetchReturns i out" "i < length (workers s)"
      "wpc (workers s ! i) = WFetching"
      "s' = s\<lparr>workers := (workers s)[i := (workers s ! i)
               \<lparr>wbytes := fst (doMeasure out), werr := snd (doMeasure out), wpc := W58\<rparr>]\<rparr>"
  | (AddBytes) i where "e = AddBytes i" "i < length (workers s)" "wpc (workers s ! i) = W58"
      "s' = s\<lparr>sumBytes := sumBytes s + wbytes (workers s ! i),
               workers := (workers s)[i := (workers s ! i)\<lparr>wpc := W59\<rparr>]\<rparr>"
  | (ReleasePanic) i where "e = ReleaseSlot i" "i < length (workers s)" "wpc (workers s ! i) = W59"
      "sem s \<le> 0" "s' = s\<lparr>sem := sem s - 1, panicked := Some ReleasedMoreThanHeld\<rparr>"
  | (ReleaseSlot) i where "e = ReleaseSlot i" "i < length (workers s)" "wpc (workers s ! i) = W59"
      "0 < sem s" "s' = s\<lparr>sem := sem s - 1, workers := (workers s)[i := (workers s ! i)\<lparr>wpc := WGroup\<rparr>]\<rparr>"
  | (ReportErr) i where "e = ReportErr i" "i < length (workers s)" "wpc (workers s ! i) = WGroup"
      "s' = s\<lparr>g_err := (case g_err s of None \<Rightarrow> werr (workers s ! i) | Some x \<Rightarrow> Some x),
               workers := (workers s)[i := (workers s ! i)\<lparr>wpc := WDone\<rparr>]\<rparr>"
proof -
  have run: "step1 e s = Some s'"
    using assms by (simp add: step_def split: if_splits)
  show thesis
  proof (cases e)
    case (Tick d) then show ?thesis using run that(1) by simp
  next
    case DeadlinePasses then show ?thesis using run that(2) by (simp split: if_splits)
  next
    case NewContext then show ?thesis using run that(3) by (simp split: if_splits)
  next
    case StartClock then show ?thesis using run that(4) by (simp split: if_splits)
  next
    case LoopTest then show ?thesis using run that(5,6) by (auto split: if_splits)
  next
    case AcquireOk then show ?thesis using run that(7)
      by (simp add: after_acquire_def split: if_splits)
  next
    case AcquireFail then show ?thesis using run that(8) by (simp split: if_splits)
  next
    case Spawn then show ?thesis using run that(9) by (simp split: if_splits)
  next
    case WaitReturns then show ?thesis using run that(10) by (simp split: if_splits)
  next
    case (PickURL i) then show ?thesis using run that(11,12) [of i]
      by (auto simp: at_pc_def upd_worker_def split: if_splits sum.splits)
  next
    case (CountUp i) then show ?thesis using run that(13) [of i]
      by (simp add: at_pc_def upd_worker_def split: if_splits)
  next
    case (CallFetch i) then show ?thesis using run that(14) [of i]
      by (simp add: at_pc_def upd_worker_def split: if_splits)
  next
    case (FetchReturns i out) then show ?thesis using run that(15) [of i out]
      by (simp add: at_pc_def upd_worker_def split: if_splits)
  next
    case (AddBytes i) then show ?thesis using run that(16) [of i]
      by (simp add: at_pc_def upd_worker_def split: if_splits)
  next
    case (ReleaseSlot i) then show ?thesis using run that(17,18) [of i]
      by (auto simp: at_pc_def upd_worker_def split: if_splits)
  next
    case (ReportErr i) then show ?thesis using run that(19) [of i]
      by (auto simp: at_pc_def upd_worker_def split: if_splits option.splits)
  qed
qed

subsection \<open>Sums over the workers\<close>

lemma sum_list_map_update:
  fixes f :: "'a \<Rightarrow> 'b::ab_group_add"
  shows "i < length xs \<Longrightarrow> sum_list (map f (xs[i := y])) = sum_list (map f xs) - f (xs ! i) + f y"
  by (induction xs arbitrary: i) (auto split: nat.splits)

lemma all_done_sums:
  assumes "list_all (\<lambda>w. wpc w = WDone) ws"
  shows "sum_list (map added_bytes ws) = sum_list (map fetched_bytes ws)"
  using assms by (induction ws) (auto simp: added_bytes_def fetched_bytes_def)

lemma sum_added_filter:
  "sum_list (map added_bytes ws) = sum_list (map wbytes (filter (\<lambda>w. past_add (wpc w)) ws))"
  by (induction ws) (auto simp: added_bytes_def)

lemma zeros_sum: "list_all (\<lambda>n. n = 0) ns \<Longrightarrow> sum_list ns = (0 :: 64 word)"
  by (induction ns) auto

lemma returned_counts_append:
  "returned_counts (xs @ ys) = returned_counts xs @ returned_counts ys"
  by (induction xs rule: returned_counts.induct) auto

lemma reported_append: "reported (xs @ ys) = reported xs @ reported ys"
  by (induction xs rule: reported.induct) auto

lemma first_error_snoc:
  "first_error (xs @ [x]) = (case first_error xs of None \<Rightarrow> x | Some e \<Rightarrow> Some e)"
  by (induction xs rule: first_error.induct) (cases x; auto split: option.splits)+

lemma map_nth_update_other:
  "j \<notin> set xs \<Longrightarrow> map (\<lambda>i. f (ws[j := w] ! i)) xs = map (\<lambda>i. f (ws ! i)) xs"
  by (induction xs) auto

lemma map_nth_append_old:
  "\<forall>i \<in> set xs. i < length ws \<Longrightarrow> map (\<lambda>i. f ((ws @ zs) ! i)) xs = map (\<lambda>i. f (ws ! i)) xs"
  by (induction xs) (auto simp: nth_append)

lemma done_holding:
  "list_all (\<lambda>w. wpc w = WDone) ws \<Longrightarrow> sum_list (map holding ws) = 0"
  by (induction ws) (auto simp: holding_def)

lemma fetching_le_holding:
  "int (length (filter (\<lambda>w. wpc w = WFetching) ws)) \<le> sum_list (map holding ws)"
  by (induction ws) (auto simp: holding_def)

text \<open>Sums of \<open>int64\<close> values that do not overflow.\<close>

lemma sint_small:
  assumes "unat (w :: 64 word) < 2 ^ 63"
  shows "sint w = int (unat w)"
proof -
  have e: "uint w = int (unat w)" by (rule uint_nat)
  have "int (unat w) < int (2 ^ 63)" using assms by (simp only: of_nat_less_iff)
  then have u: "uint w < 2 ^ 63" unfolding e by (simp only: of_nat_power of_nat_numeral)
  have "(0::int) \<le> uint w" by (rule uint_ge_0)
  moreover have "- (2 ^ 63) \<le> (0::int)" by simp
  ultimately have l: "- (2 ^ 63) \<le> uint w" by (rule order_trans [rotated])
  have "signed_take_bit 63 (uint w) = uint w"
    using l u by (rule signed_take_bit_int_eq_self)
  then have "sint w = uint w" by (simp only: sint_uint) simp
  then show ?thesis by (simp only: e)
qed

lemma unat_sum_list:
  "sum_list (map unat ws) < 2 ^ 64 \<Longrightarrow> unat (sum_list ws :: 64 word) = sum_list (map unat ws)"
proof (induction ws)
  case Nil then show ?case by simp
next
  case (Cons w ws)
  from Cons.prems have b: "unat w + sum_list (map unat ws) < 2 ^ 64" by simp
  then have "sum_list (map unat ws) < 2 ^ 64" by linarith
  then have ih: "unat (sum_list ws) = sum_list (map unat ws)" by (rule Cons.IH)
  have "unat w + unat (sum_list ws) < 2 ^ LENGTH(64)" using b ih by simp
  then have "unat (w + sum_list ws) = unat w + unat (sum_list ws)"
    by (simp only: unat_add_lem)
  then show ?case using ih by simp
qed

lemma sint_sum_list:
  assumes "sum_list (map unat ws) < 2 ^ 63"
  shows "sint (sum_list ws :: 64 word) = int (sum_list (map unat ws))"
proof -
  have "(2::nat) ^ 63 < 2 ^ 64" by simp
  with assms have "sum_list (map unat ws) < 2 ^ 64" by (rule less_trans)
  then have "unat (sum_list ws) = sum_list (map unat ws)" by (rule unat_sum_list)
  then show ?thesis using assms sint_small [of "sum_list ws"] by simp
qed

subsection \<open>Every step keeps the invariants\<close>

lemma inv_sum_step:
  assumes "inv_sum s" and "step e s = Some s'"
  shows "inv_sum s'"
  using assms
  by (cases e)
     (auto simp: step_defs inv_sum_def sum_list_map_update added_bytes_def
           split: if_splits sum.splits option.splits)

lemma inv_fetched_step:
  assumes "inv_fetched evs s" and "step e s = Some s'"
  shows "inv_fetched (evs @ [e]) s'"
  using assms
  by (cases e)
     (auto simp: step_defs inv_fetched_def sum_list_map_update fetched_bytes_def
                 returned_counts_append
           split: if_splits sum.splits option.splits)

lemma inv_added_once_step:
  assumes "inv_added_once evs s" and "step e s = Some s'"
  shows "inv_added_once (evs @ [e]) s'"
  using assms
  by (cases e)
     (auto simp: step_defs inv_added_once_def nth_list_update nth_append
           split: if_splits sum.splits option.splits)

lemma inv_outcome_step:
  assumes "inv_outcome evs s" and "step e s = Some s'"
  shows "inv_outcome (evs @ [e]) s'"
proof -
  have old: "i < length (workers s) \<and> past_fetch (wpc (workers s ! i)) \<and>
        wbytes (workers s ! i) = fst (doMeasure out) \<and>
        werr (workers s ! i) = snd (doMeasure out)"
    if "FetchReturns i out \<in> set evs" for i out
    using assms(1) that by (simp add: inv_outcome_def)
  show ?thesis
    using assms(2)
    by (cases rule: step_cases)
       (auto simp: inv_outcome_def nth_list_update nth_append
                   after_acquire_def after_wait_def cancel_def
             split: option.splits dest: old)
qed

lemma inv_idx_step:
  assumes "inv_idx evs s" and "step e s = Some s'"
  shows "inv_idx (evs @ [e]) s'"
  using assms(2) assms(1)
  by (cases rule: step_cases)
     (auto simp: inv_idx_def sum_list_map_update nth_list_update nth_append
                 after_acquire_def after_wait_def cancel_def new_worker_def
           split: option.splits)

lemma inv_ctx_step:
  assumes "inv_ctx s" and "step e s = Some s'"
  shows "inv_ctx s'"
  using assms(2) assms(1) step_running [OF assms(2)]
  by (cases rule: step_cases)
     (auto simp: inv_ctx_def after_acquire_def after_wait_def cancel_def)

lemma inv_ret_step:
  assumes "inv_ctx s" and "inv_ret s" and "step e s = Some s'"
  shows "inv_ret s'"
  using assms(3) assms(1,2) step_running [OF assms(3)]
  by (cases rule: step_cases)
     (auto simp: inv_ctx_def inv_ret_def after_acquire_def after_wait_def cancel_def)

lemma inv_reported_step:
  assumes "inv_reported evs s" and "step e s = Some s'"
  shows "inv_reported (evs @ [e]) s'"
  using assms(2) assms(1)
  by (cases rule: step_cases)
     (auto simp: inv_reported_def reported_append nth_list_update nth_append
                 after_acquire_def after_wait_def cancel_def
           split: option.splits)

lemma inv_reported_all_step:
  assumes "inv_reported evs s" and "inv_reported_all evs s" and "step e s = Some s'"
  shows "inv_reported_all (evs @ [e]) s'"
proof -
  have notin: "j \<notin> set (reported evs)" if "wpc (workers s ! j) \<noteq> WDone" for j
    using assms(1) that by (auto simp: inv_reported_def)
  have mem: "i \<in> set (reported evs)" if "i < length (workers s)" "wpc (workers s ! i) = WDone" for i
    using assms(2) that by (auto simp: inv_reported_all_def)
  have dist: "distinct (reported evs)"
    using assms(2) by (simp add: inv_reported_all_def)
  show ?thesis
    using assms(3)
    by (cases rule: step_cases)
       (auto simp: inv_reported_all_def reported_append nth_list_update nth_append
                   after_acquire_def after_wait_def cancel_def new_worker_def dist notin
             split: option.splits if_splits intro: mem)
qed

lemma inv_group_step:
  assumes "inv_reported evs s" and "inv_group evs s" and "step e s = Some s'"
  shows "inv_group (evs @ [e]) s'"
proof -
  have notin: "j \<notin> set (reported evs)" if "wpc (workers s ! j) \<noteq> WDone" for j
    using assms(1) that by (auto simp: inv_reported_def)
  have old: "\<forall>i \<in> set (reported evs). i < length (workers s)"
    using assms(1) by (auto simp: inv_reported_def)
  show ?thesis
    using assms(3) assms(2)
    by (cases rule: step_cases)
       (auto simp: inv_group_def reported_append first_error_snoc notin old
                   map_nth_update_other map_nth_append_old
                   after_acquire_def after_wait_def cancel_def
             split: option.splits)
qed

lemma inv_sem_step:
  assumes "inv_ctx s" and "inv_sem evs s" and "step e s = Some s'"
  shows "inv_sem (evs @ [e]) s'"
  using assms(3) assms(1,2) step_running [OF assms(3)]
  by (cases rule: step_cases)
     (auto simp: inv_sem_def inv_ctx_def sum_list_map_update holding_def
                 after_acquire_def after_wait_def cancel_def new_worker_def)

lemma inv_flight_step:
  assumes "inv_sem (evs @ [e]) s'" and "inv_flight evs s" and "step e s = Some s'"
  shows "inv_flight (evs @ [e]) s'"
proof (cases "panicked s' = None")
  case True
  then have "sum_list (map holding (workers s'))
      \<le> maxConcurrentRequests + int (count_list (evs @ [e]) AcquireFail)"
    using assms(1) by (auto simp: inv_sem_def split: if_splits)
  then show ?thesis
    using fetching_le_holding [of "workers s'"] by (simp add: inv_flight_def)
next
  case False
  with assms(3,2) step_running [OF assms(3)] show ?thesis
    by (cases rule: step_cases)
       (auto simp: inv_flight_def after_acquire_def after_wait_def cancel_def
             split: if_splits option.splits)
qed

lemma inv_empty_step:
  assumes "inv_empty evs s" and "step e s = Some s'"
  shows "inv_empty (evs @ [e]) s'"
  using assms(2) assms(1) step_running [OF assms(2)]
  by (cases rule: step_cases)
     (auto simp: inv_empty_def list_all_length nth_list_update nth_append pick_url_def
                 after_acquire_def after_wait_def cancel_def new_worker_def
           split: option.splits if_splits)

lemma inv_all_init: "inv_all [] (init_state us)"
  by (simp add: inv_all_def init_state_def inv_sum_def inv_fetched_def inv_added_once_def
        inv_ctx_def inv_ret_def inv_reported_def inv_reported_all_def inv_group_def inv_outcome_def inv_sem_def
        maxConcurrentRequests_def)

lemma inv_all_step:
  assumes "inv_all evs s" and "step e s = Some s'"
  shows "inv_all (evs @ [e]) s'"
proof -
  from assms(1) have a: "inv_sum s" "inv_fetched evs s" "inv_added_once evs s" "inv_ctx s"
    "inv_ret s" "inv_reported evs s" "inv_group evs s" "inv_outcome evs s" "inv_sem evs s"
    "inv_reported_all evs s"
    by (simp_all add: inv_all_def)
  note st = assms(2)
  show ?thesis
    unfolding inv_all_def
    using inv_sum_step [OF a(1) st] inv_fetched_step [OF a(2) st]
      inv_added_once_step [OF a(3) st] inv_ctx_step [OF a(4) st]
      inv_ret_step [OF a(4) a(5) st] inv_reported_step [OF a(6) st]
      inv_group_step [OF a(6) a(7) st] inv_outcome_step [OF a(8) st]
      inv_sem_step [OF a(4) a(9) st] inv_reported_all_step [OF a(6) a(10) st]
    by blast
qed

lemma inv_all_exec:
  assumes "exec evs (init_state us) = Some s"
  shows "inv_all evs s"
proof (rule exec_trace_invariant [OF assms, of inv_all])
  show "inv_all [] (init_state us)" by (rule inv_all_init)
next
  fix evs e s s' assume "inv_all evs s" "step e s = Some s'"
  then show "inv_all (evs @ [e]) s'" by (rule inv_all_step)
qed

lemma inv_empty_exec:
  assumes "exec evs (init_state []) = Some s"
  shows "inv_empty evs s"
proof (rule exec_trace_invariant [OF assms, of inv_empty])
  show "inv_empty [] (init_state [])" by (simp add: inv_empty_def init_state_def)
next
  fix evs e s s' assume "inv_empty evs s" "step e s = Some s'"
  then show "inv_empty (evs @ [e]) s'" by (rule inv_empty_step)
qed

subsection \<open>The fetcher\<close>

text \<open>
  C9.  \<open>doMeasure\<close> never looks at the status code: a response whose body was copied to
  the end gives the number of bytes copied and a nil error whatever the status, 2xx or
  not.  The error of \<open>doMeasure\<close> is the error of the request's construction, of the
  transport (\<open>Do\<close>) or of the copy of the body, and nothing else.
\<close>

theorem doMeasure_ignores_status:
  "doMeasure (Responded status n None) = (n, None) \<and>
   doMeasure (Responded status n cerr) = doMeasure (Responded status' n cerr) \<and>
   (snd (doMeasure out) = Some e \<longleftrightarrow>
      out = RequestFailed e \<or> out = TransportFailed e \<or>
      (\<exists>st k. out = Responded st k (Some e)))"
  by (cases out) auto

subsection \<open>The URL source\<close>

text \<open>
  C10.  When \<open>jsRE\<close> matches nothing in the landing page, \<open>scriptNames\<close> is empty and
  \<open>scriptNames[0]\<close> panics with an index out of range: \<open>getToken\<close>, \<open>findURLs\<close> and
  \<open>Measure\<close> return nothing, no error either, and no statement of \<open>Measure\<close> runs
  after the panic.
\<close>

theorem getToken_no_script_panics:
  "find_js (fst (getPage w baseURL)) = [] \<Longrightarrow>
     getToken w = Inl IndexOutOfRange \<and> findURLs w = Inl IndexOutOfRange \<and>
     panicked (Measure_init w) = Some IndexOutOfRange \<and> step e (Measure_init w) = None"
  by (auto simp: getToken_def findURLs_def Measure_init_def step_def split: prod.splits)

theorem getToken_no_script_panics_witness:
  "find_js (fst (getPage web_without_script baseURL)) = [] \<and>
   getToken web_without_script = Inl IndexOutOfRange \<and>
   findURLs web_without_script = Inl IndexOutOfRange \<and>
   panicked (Measure_init web_without_script) = Some IndexOutOfRange \<and>
   step NewContext (Measure_init web_without_script) = None"
proof -
  have h: "find_js (fst (getPage web_without_script baseURL)) = []"
    by (simp add: web_defs)
  show ?thesis
    using h getToken_no_script_panics [OF h, of NewContext] by simp
qed

text \<open>
  C8, as the code has it.  \<open>getToken\<close> and \<open>findURLs\<close> return no error at all.  Once
  the landing page names a script, \<open>getToken\<close> returns a token, the empty one when
  \<open>tokenRE\<close> matches nothing in the script, and \<open>findURLs\<close> returns the URLs that
  \<open>urlRE\<close> finds in the answer of the API to that token, none when it matches nothing.
  (A landing page without a script is C10.)
\<close>

theorem url_source_returns_no_error:
  assumes "find_js (fst (getPage w baseURL)) = name # names"
  shows "(find_token (fst (getPage w (baseURL @ ''/'' @ name))) = [] \<longrightarrow> getToken w = Inr []) \<and>
         (\<exists>token. getToken w = Inr token \<and>
                  findURLs w = Inr (find_urls (fst (getPage w (apiURL token)))))"
  using assms
  by (auto simp: getToken_def findURLs_def Let_def split: prod.splits list.splits)

text \<open>With \<open>web_without_token\<close>: a script, no token, no URL.\<close>

theorem url_source_witness:
  "find_js (fst (getPage web_without_token baseURL)) = [''app-a1b2c3.js''] \<and>
   find_token (fst (getPage web_without_token (baseURL @ ''/'' @ ''app-a1b2c3.js''))) = [] \<and>
   getToken web_without_token = Inr [] \<and>
   findURLs web_without_token = Inr (find_urls (fst (getPage web_without_token (apiURL []))))"
proof -
  have h: "find_js (fst (getPage web_without_token baseURL)) = ''app-a1b2c3.js'' # []"
    by (simp add: web_defs)
  have t: "find_token (fst (getPage web_without_token (baseURL @ ''/'' @ ''app-a1b2c3.js''))) = []"
    by (simp add: web_defs)
  from url_source_returns_no_error [OF h] h t show ?thesis by auto
qed

text \<open>
  C8 as the claim states it fails: the script holds no token and the answer of the API
  holds no URL, and the caller gets the empty token and the empty pool, not an error.
\<close>

theorem url_source_counterexample:
  "find_js (fst (getPage web_without_token baseURL)) = [''app-a1b2c3.js''] \<and>
   find_token (fst (getPage web_without_token ''https://fast.com/app-a1b2c3.js'')) = [] \<and>
   getToken web_without_token = Inr [] \<and>
   find_urls (fst (getPage web_without_token (apiURL []))) = [] \<and>
   findURLs web_without_token = Inr []"
  by (simp add: web_defs)

subsection \<open>The coordinator: runs that go wrong\<close>

text \<open>
  C1.  Lines 55 and 56 are two statements: \<open>idx\<close> is read by one and incremented by the
  other, and another goroutine can run between them.  With the pool \<open>[a, b, c]\<close>, two
  units are dispatched; the first runs line 55, then the second runs line 55 before the
  first has run line 56.  Both read \<open>idx = 0\<close>: the unit with sequence number 1 fetches
  \<open>urls[0]\<close>, not \<open>urls[1]\<close>.
\<close>

theorem second_unit_reads_stale_idx:
  "map_option (\<lambda>s. (map wurl (workers s), idx s))
     (exec (two_units @ [PickURL 0, PickURL 1, CountUp 0, CountUp 1])
        (init_state [''a'', ''b'', ''c''])) =
   Some ([''a'', ''a''], 2)"
  by (simp add: run_defs)

text \<open>What does hold of the counter: line 56 runs once for every unit that gets past it,
  so \<open>idx\<close> counts those units (modulo \<open>2 ^ 32\<close>).\<close>

lemma counter_incremented_once_per_unit:
  assumes "exec evs (init_state us) = Some s"
  shows "idx s = of_nat (length (filter (\<lambda>w. past_count (wpc w)) (workers s))) \<and>
         (\<forall>i < length (workers s).
            count_list evs (CountUp i) = (if past_count (wpc (workers s ! i)) then 1 else 0))"
proof -
  have a: "inv_idx evs s"
  proof (rule exec_trace_invariant [OF assms, of inv_idx])
    show "inv_idx [] (init_state us)" by (simp add: inv_idx_def init_state_def)
  next
    fix evs e s s' assume "inv_idx evs s" "step e s = Some s'"
    then show "inv_idx (evs @ [e]) s'" by (rule inv_idx_step)
  qed
  have "sum_list (map (\<lambda>w. if past_count (wpc w) then 1 else 0) ws)
          = (of_nat (length (filter (\<lambda>w. past_count (wpc w)) ws)) :: 32 word)" for ws
    by (induction ws) auto
  with a show ?thesis by (simp add: inv_idx_def)
qed

text \<open>
  C2.  Eight units hold the eight slots and are inside \<open>doMeasure\<close>; the deadline passes
  while the main goroutine waits in \<open>sem.Acquire\<close>, which returns the deadline error and
  leaves the semaphore as it was.  \<open>isUnexpectedError\<close> is false of that error, so line
  53 starts a ninth unit, which holds no slot and calls \<open>doMeasure\<close>: nine fetches are in
  flight, and the semaphore counts eight.
\<close>

theorem nine_fetches_in_flight:
  "map_option (\<lambda>s. (length (filter (\<lambda>w. wpc w = WFetching) (workers s)), sem s))
     (exec ninth_unit (init_state [''a'', ''b'', ''c''])) =
   Some (9, 8)"
  by (simp add: run_defs)

text \<open>The bound that does hold: eight fetches in flight, and one more after a failed
  \<open>sem.Acquire\<close>, which happens at most once in a run.\<close>

lemma in_flight_bound:
  assumes "exec evs (init_state us) = Some s"
  shows "int (length (filter (\<lambda>w. wpc w = WFetching) (workers s)))
           \<le> maxConcurrentRequests + int (count_list evs AcquireFail) \<and>
         count_list evs AcquireFail \<le> 1"
proof -
  have "inv_all evs s \<and> inv_flight evs s"
  proof (rule exec_trace_invariant [OF assms, of "\<lambda>evs s. inv_all evs s \<and> inv_flight evs s"])
    have "inv_flight [] (init_state us)"
      by (simp add: inv_flight_def init_state_def maxConcurrentRequests_def)
    then show "inv_all [] (init_state us) \<and> inv_flight [] (init_state us)"
      using inv_all_init [of us] by simp
  next
    fix evs e s s'
    assume a: "inv_all evs s \<and> inv_flight evs s" and st: "step e s = Some s'"
    from a have a1: "inv_all evs s" and a2: "inv_flight evs s" by simp_all
    have b: "inv_all (evs @ [e]) s'" using a1 st by (rule inv_all_step)
    then have "inv_sem (evs @ [e]) s'" by (simp add: inv_all_def)
    then have "inv_flight (evs @ [e]) s'" using a2 st by (rule inv_flight_step)
    with b show "inv_all (evs @ [e]) s' \<and> inv_flight (evs @ [e]) s'" by simp
  qed
  then show ?thesis by (simp add: inv_all_def inv_sem_def inv_flight_def)
qed

text \<open>
  C3.  The same run goes on: the loop ends at the next \<open>select\<close>, the eight transfers are
  cut by the deadline, the ninth fails at once, and every unit releases a slot.  The
  ninth release finds the count at zero: \<open>sem.Release\<close> panics while the main goroutine is
  in \<open>wg.Wait\<close>, and \<open>Measure\<close> returns nothing.
\<close>

theorem deadline_in_acquire_panics:
  "map_option (\<lambda>s. (panicked s, pc s, sem s))
     (exec nine_finish (init_state [''a'', ''b'', ''c''])) =
   Some (Some ReleasedMoreThanHeld, M64, - 1)"
  by (simp add: run_defs)

text \<open>It is so in every run: once \<open>sem.Acquire\<close> has failed, \<open>Measure\<close> does not return.\<close>

lemma acquire_fail_never_returns:
  assumes "exec evs (init_state us) = Some s" and "AcquireFail \<in> set evs"
  shows "\<not> returned (pc s)"
proof
  assume r: "returned (pc s)"
  then obtain x e where p: "pc s = MReturned x e" by (cases "pc s") auto
  from inv_all_exec [OF assms(1)]
  have a: "inv_ctx s" "inv_ret s" "inv_sem evs s" by (simp_all add: inv_all_def)
  have "panicked s = None" using a(1) r by (simp add: inv_ctx_def)
  moreover have "sum_list (map holding (workers s)) = 0"
    using a(2) p by (simp add: inv_ret_def done_holding)
  ultimately have "count_list evs AcquireFail = 0"
    using a(3) p by (simp add: inv_sem_def)
  then show False using assms(2) by (simp add: count_list_0_iff)
qed

subsection \<open>The coordinator: the byte accumulator\<close>

text \<open>
  C6.  In every state of every run, \<open>sumBytes\<close> is the sum of the byte counts of the
  units that have run line 58, and line 58 has run exactly once for each of them,
  whatever \<open>err\<close> was.  When every unit is done, \<open>sumBytes\<close> is the sum of all
  the counts that the calls of \<open>doMeasure\<close> returned, in \<open>int64\<close> arithmetic; it is
  their sum as integers when that sum is below \<open>2 ^ 63\<close>.
\<close>

theorem accumulator_is_sum_of_returned_counts:
  assumes "exec evs (init_state us) = Some s"
  shows "sumBytes s = sum_list (map wbytes (filter (\<lambda>w. past_add (wpc w)) (workers s))) \<and>
         (\<forall>i < length (workers s).
             count_list evs (AddBytes i) = (if past_add (wpc (workers s ! i)) then 1 else 0)) \<and>
         (list_all (\<lambda>w. wpc w = WDone) (workers s) \<longrightarrow>
             sumBytes s = sum_list (returned_counts evs) \<and>
             (sum_list (map unat (returned_counts evs)) < 2 ^ 63 \<longrightarrow>
                sint (sumBytes s) = int (sum_list (map unat (returned_counts evs)))))"
proof -
  from inv_all_exec [OF assms]
  have a: "inv_sum s" "inv_fetched evs s" "inv_added_once evs s"
    by (simp_all add: inv_all_def)
  have 1: "sumBytes s = sum_list (map wbytes (filter (\<lambda>w. past_add (wpc w)) (workers s)))"
    using a(1) by (simp add: inv_sum_def sum_added_filter)
  have 2: "\<forall>i < length (workers s).
             count_list evs (AddBytes i) = (if past_add (wpc (workers s ! i)) then 1 else 0)"
    using a(3) by (simp add: inv_added_once_def)
  have 3: "sumBytes s = sum_list (returned_counts evs)"
    if "list_all (\<lambda>w. wpc w = WDone) (workers s)"
    using a(1,2) all_done_sums [OF that] by (simp add: inv_sum_def inv_fetched_def)
  have 4: "sint (sumBytes s) = int (sum_list (map unat (returned_counts evs)))"
    if "list_all (\<lambda>w. wpc w = WDone) (workers s)"
      and "sum_list (map unat (returned_counts evs)) < 2 ^ 63"
    using 3 [OF that(1)] sint_sum_list [OF that(2)] by simp
  show ?thesis using 1 2 3 4 by blast
qed

text \<open>The run \<open>good_run\<close>: a 404 response of 1000 bytes, and a transfer cut after 500.\<close>

theorem accumulator_witness:
  "\<exists>s. exec good_run (init_state [''a'', ''b'']) = Some s \<and>
       list_all (\<lambda>w. wpc w = WDone) (workers s) \<and>
       returned_counts good_run = [1000, 500] \<and>
       count_list good_run (AddBytes 0) = 1 \<and> count_list good_run (AddBytes 1) = 1 \<and>
       sumBytes s = 1500 \<and> sint (sumBytes s) = 1500"
proof -
  obtain s where s: "exec good_run (init_state [''a'', ''b'']) = Some s"
    and d: "list_all (\<lambda>w. wpc w = WDone) (workers s)" and l: "length (workers s) = 2"
    by (simp add: run_defs run2_defs)
  have c: "returned_counts good_run = [1000, 500]"
    by (simp add: run_defs run2_defs)
  have "sum_list (map unat (returned_counts good_run)) < 2 ^ 63"
    by (simp add: c)
  with accumulator_is_sum_of_returned_counts [OF s] d l c s
  show ?thesis by (auto simp: run_defs run2_defs)
qed

subsection \<open>The coordinator: the result\<close>

text \<open>
  C5.  When \<open>Measure\<close> returns a nil error, every unit is done, \<open>sumBytes\<close> is the sum
  of the byte counts returned, and the throughput is the \<open>float64\<close> quotient of
  \<open>sumBytes\<close> and the seconds from \<open>start\<close> to the clock at the return.  That time is
  positive when \<open>start\<close> was read before the deadline (fewer than ten seconds between
  lines 39 and 42), since the loop is only left after the deadline.  When the time is
  positive, the throughput is the number \<open>sumBytes\<close> divided by the seconds; it is not
  negative when the counts add up to less than \<open>2 ^ 63\<close>, and it is 0 when every count
  is 0 (no call of \<open>doMeasure\<close> at all included).
\<close>

theorem throughput_on_success:
  assumes "exec evs (init_state us) = Some s" and "pc s = MReturned r None"
  shows "list_all (\<lambda>w. wpc w = WDone) (workers s) \<and>
         sumBytes s = sum_list (returned_counts evs) \<and>
         r = float_div (real_of_int (sint (sumBytes s)))
                       (real (clock s - start s) / 1000000000) \<and>
         (start s < ctx_deadline s \<longrightarrow> start s < clock s) \<and>
         (start s < clock s \<longrightarrow>
            r = Num (real_of_int (sint (sumBytes s)) / (real (clock s - start s) / 1000000000)) \<and>
            (sum_list (map unat (returned_counts evs)) < 2 ^ 63 \<longrightarrow> (\<exists>x. r = Num x \<and> 0 \<le> x)) \<and>
            (list_all (\<lambda>n. n = 0) (returned_counts evs) \<longrightarrow> r = Num 0))"
proof -
  from inv_all_exec [OF assms(1)]
  have a: "inv_sum s" "inv_fetched evs s" "inv_ctx s" "inv_ret s"
    by (simp_all add: inv_all_def)
  have d: "list_all (\<lambda>w. wpc w = WDone) (workers s)"
    using a(4) assms(2) by (simp add: inv_ret_def)
  have r: "r = throughput (sumBytes s) (start s) (clock s)"
    using a(4) assms(2) by (auto simp: inv_ret_def split: if_splits)
  have t: "sumBytes s = sum_list (returned_counts evs)"
    using a(1,2) all_done_sums [OF d] by (simp add: inv_sum_def inv_fetched_def)
  have c: "ctx_deadline s \<le> clock s"
    using a(3) assms(2) by (simp add: inv_ctx_def)
  have q: "r = Num (real_of_int (sint (sumBytes s)) / (real (clock s - start s) / 1000000000))"
    if "start s < clock s"
    using that by (simp add: r throughput_def float_div_def)
  have n: "\<exists>x. r = Num x \<and> 0 \<le> x"
    if "start s < clock s" and "sum_list (map unat (returned_counts evs)) < 2 ^ 63"
    using q [OF that(1)] sint_sum_list [OF that(2)] by (simp add: t)
  have z: "r = Num 0"
    if "start s < clock s" and "list_all (\<lambda>n. n = 0) (returned_counts evs)"
    using q [OF that(1)] zeros_sum [OF that(2)] by (simp add: t)
  have f: "r = float_div (real_of_int (sint (sumBytes s)))
                         (real (clock s - start s) / 1000000000)"
    by (simp add: r throughput_def)
  show ?thesis
    using d t c f q n z by auto
qed

text \<open>The runs \<open>good_run\<close>, 1500 bytes in ten seconds, and \<open>idle_run\<close>, no byte at all.\<close>

theorem throughput_witness:
  "(\<exists>s. exec good_run (init_state [''a'', ''b'']) = Some s \<and> pc s = MReturned (Num 150) None \<and>
        start s < ctx_deadline s \<and> start s < clock s \<and>
        sum_list (map unat (returned_counts good_run)) < 2 ^ 63 \<and>
        sumBytes s = 1500 \<and> list_all (\<lambda>w. wpc w = WDone) (workers s)) \<and>
   (\<exists>s. exec idle_run (init_state [''a'', ''b'']) = Some s \<and> pc s = MReturned (Num 0) None \<and>
        start s < ctx_deadline s \<and> start s < clock s \<and>
        list_all (\<lambda>n. n = 0) (returned_counts idle_run) \<and> sumBytes s = 0)"
proof -
  obtain s where s: "exec good_run (init_state [''a'', ''b'']) = Some s"
    and p: "pc s = MReturned (Num 150) None" and t: "start s < ctx_deadline s"
    by (simp add: run_defs run2_defs)
  have c: "returned_counts good_run = [1000, 500]"
    by (simp add: run_defs run2_defs)
  have b: "sum_list (map unat (returned_counts good_run)) < 2 ^ 63"
    by (simp add: c)
  have 1: "\<exists>s. exec good_run (init_state [''a'', ''b'']) = Some s \<and> pc s = MReturned (Num 150) None \<and>
        start s < ctx_deadline s \<and> start s < clock s \<and>
        sum_list (map unat (returned_counts good_run)) < 2 ^ 63 \<and>
        sumBytes s = 1500 \<and> list_all (\<lambda>w. wpc w = WDone) (workers s)"
    using throughput_on_success [OF s p] t c b s p by auto
  obtain s' where s': "exec idle_run (init_state [''a'', ''b'']) = Some s'"
    and p': "pc s' = MReturned (Num 0) None" and t': "start s' < ctx_deadline s'"
    by (simp add: run_defs run2_defs)
  have c': "returned_counts idle_run = []"
    by (simp add: run_defs run2_defs)
  have 2: "\<exists>s. exec idle_run (init_state [''a'', ''b'']) = Some s \<and> pc s = MReturned (Num 0) None \<and>
        start s < ctx_deadline s \<and> start s < clock s \<and>
        list_all (\<lambda>n. n = 0) (returned_counts idle_run) \<and> sumBytes s = 0"
    using throughput_on_success [OF s' p'] t' c' s' p' by auto
  show ?thesis using 1 2 by blast
qed

text \<open>
  Why the time has to be positive: in the run \<open>stalled_start\<close> ten seconds pass between
  lines 39 and 42 and the clock then reads the same at lines 42 and 67, so line 67
  divides \<open>0.0\<close> by \<open>0.0\<close>.
\<close>

lemma stalled_start_divides_by_zero:
  "map_option pc (exec stalled_start (init_state us)) = Some (MReturned NaN None)"
  by (simp add: run_defs run2_defs)

text \<open>
  C4, as the code has it.  When \<open>Measure\<close> returns, every unit has reported to the
  \<open>errgroup\<close> once; \<open>err\<close> of a unit is the error of its call of \<open>doMeasure\<close>; the
  \<open>errgroup\<close> has kept the first error reported that is not nil.  If that error is
  unexpected, \<open>Measure\<close> returns it with throughput 0, whatever \<open>sumBytes\<close> is.  If it
  is nil or a deadline error, \<open>Measure\<close> returns a nil error and the throughput, also
  when a unit that reported later had an unexpected error.
\<close>

theorem first_reported_error_decides:
  assumes "exec evs (init_state us) = Some s" and "pc s = MReturned r e"
  shows "list_all (\<lambda>w. wpc w = WDone) (workers s) \<and>
         set (reported evs) = {..<length (workers s)} \<and> distinct (reported evs) \<and>
         (\<forall>i out. FetchReturns i out \<in> set evs \<longrightarrow> werr (workers s ! i) = snd (doMeasure out)) \<and>
         g_err s = first_error (map (\<lambda>i. werr (workers s ! i)) (reported evs)) \<and>
         (isUnexpectedError (g_err s) \<longrightarrow> r = Num 0 \<and> e = g_err s) \<and>
         (\<not> isUnexpectedError (g_err s) \<longrightarrow>
            e = None \<and> r = throughput (sumBytes s) (start s) (clock s))"
proof -
  from inv_all_exec [OF assms(1)]
  have a: "inv_ret s" "inv_reported evs s" "inv_group evs s" "inv_outcome evs s"
    "inv_reported_all evs s"
    by (simp_all add: inv_all_def)
  have d: "list_all (\<lambda>w. wpc w = WDone) (workers s)"
    using a(1) assms(2) by (simp add: inv_ret_def)
  have 1: "set (reported evs) = {..<length (workers s)}"
    using a(2,5) d by (auto simp: inv_reported_def inv_reported_all_def list_all_length)
  have 2: "distinct (reported evs)"
    using a(5) by (simp add: inv_reported_all_def)
  have 3: "\<forall>i out. FetchReturns i out \<in> set evs \<longrightarrow> werr (workers s ! i) = snd (doMeasure out)"
    using a(4) by (simp add: inv_outcome_def)
  have 4: "g_err s = first_error (map (\<lambda>i. werr (workers s ! i)) (reported evs))"
    using a(3) by (simp add: inv_group_def)
  have 5: "isUnexpectedError (g_err s) \<longrightarrow> r = Num 0 \<and> e = g_err s"
    using a(1) assms(2) by (simp add: inv_ret_def)
  have 6: "\<not> isUnexpectedError (g_err s) \<longrightarrow>
            e = None \<and> r = throughput (sumBytes s) (start s) (clock s)"
    using a(1) assms(2) by (simp add: inv_ret_def)
  show ?thesis using d 1 2 3 4 5 6 by blast
qed

text \<open>The run \<open>failed_run\<close>: 1000 bytes are accumulated, and thrown away.\<close>

theorem first_reported_error_witness:
  "\<exists>s. exec failed_run (init_state [''a'', ''b'']) = Some s \<and>
       pc s = MReturned (Num 0) (Some (ErrOther ''connection reset'')) \<and>
       reported failed_run = [0, 1] \<and>
       map werr (workers s) = [None, Some (ErrOther ''connection reset'')] \<and>
       g_err s = Some (ErrOther ''connection reset'') \<and> isUnexpectedError (g_err s) \<and>
       sumBytes s = 1000"
proof -
  obtain s where s: "exec failed_run (init_state [''a'', ''b'']) = Some s"
    and p: "pc s = MReturned (Num 0) (Some (ErrOther ''connection reset''))"
    and w: "map werr (workers s) = [None, Some (ErrOther ''connection reset'')]"
    and b: "sumBytes s = 1000"
    by (simp add: run_defs run2_defs)
  have r: "reported failed_run = [0, 1]"
    by (simp add: run_defs run2_defs)
  from first_reported_error_decides [OF s p] s p w b r
  show ?thesis by (cases "isUnexpectedError (g_err s)") auto
qed

text \<open>
  C4 as the claim states it fails in the run \<open>masked_error\<close>: the second fetch fails
  with a network error, but the unit cut by the deadline reports first, and \<open>Measure\<close>
  returns 100 bytes per second and a nil error.
\<close>

theorem single_error_counterexample:
  "map_option (\<lambda>s. (map werr (workers s), sumBytes s, pc s))
     (exec masked_error (init_state [''a'', ''b''])) =
   Some ([Some (ErrWrap ''Get'' DeadlineExceeded), Some (ErrOther ''connection reset'')],
         1000, MReturned (Num 100) None)"
  by (simp add: run_defs run2_defs)

subsection \<open>The coordinator: an empty pool\<close>

text \<open>
  C7.  \<open>Measure\<close> does not look at the length of the pool before the loop.  With the
  web \<open>web_without_token\<close> the pool of \<open>findURLs\<close> is empty; \<open>Measure\<close> enters the loop,
  takes a slot and starts a unit, and the unit divides by \<open>len(urls) = 0\<close> on line 55:
  the process panics with \<open>Measure\<close> in its loop, no error returned.  (Line 123 guards
  the same kind of index with \<open>len(tokens) > 0\<close>; line 55 has no guard.)
\<close>

theorem empty_pool_divides_by_zero:
  "findURLs web_without_token = Inr [] \<and>
   map_option (\<lambda>s. (panicked s, pc s, map wpc (workers s)))
     (exec empty_pool_run (Measure_init web_without_token)) =
   Some (Some DivideByZero, M46, [W55])"
proof -
  have e: "findURLs web_without_token = Inr []"
    by (simp add: web_defs)
  then have "Measure_init web_without_token = init_state []"
    by (simp add: Measure_init_def)
  then show ?thesis
    using e by (simp add: run_defs run2_defs)
qed

text \<open>
  It is so in every run with an empty pool: no unit gets past line 55, so no fetch is
  called; a unit that runs line 55 panics; and \<open>Measure\<close> never returns an error (it
  returns at all only when it dispatched nothing before the deadline).
\<close>

lemma empty_pool_never_fetches:
  assumes "exec evs (init_state []) = Some s"
  shows "list_all (\<lambda>w. wpc w = W55) (workers s) \<and>
         (panicked s = None \<or> panicked s = Some DivideByZero) \<and>
         ((\<exists>i. PickURL i \<in> set evs) \<longrightarrow> panicked s = Some DivideByZero) \<and>
         (\<forall>r e. pc s = MReturned r e \<longrightarrow> e = None \<and> workers s = [])"
proof -
  have a: "inv_empty evs s" by (rule inv_empty_exec [OF assms])
  have b: "inv_ret s" using inv_all_exec [OF assms] by (simp add: inv_all_def)
  have "e = None \<and> workers s = []" if "pc s = MReturned r e" for r e
  proof -
    have d: "list_all (\<lambda>w. wpc w = WDone) (workers s)"
      using b that by (simp add: inv_ret_def)
    have w: "list_all (\<lambda>w. wpc w = W55) (workers s)"
      using a by (simp add: inv_empty_def)
    have e: "workers s = []"
      using d w by (cases "workers s") auto
    show ?thesis
      using a b that e by (auto simp: inv_ret_def inv_empty_def)
  qed
  then show ?thesis using a by (auto simp: inv_empty_def)
qed

end
